theory Spec2Isabelle
  imports Complex_Main "HOL-Library.Log_Nat"
begin

section \<open>The virtual controller event translation layer (\<open>UInputDevice\<close>)\<close>

text \<open>
  A shallow embedding of \<^verbatim>\<open>src/hhd/controller/virtual/uinput/__init__.py\<close>.

  Conventions of the embedding:
  \<^item> A Python number is the rational that is its value. The value of an axis event and
    the \<open>scale\<close> and \<open>offset\<close> of an axis mapping are declared \<open>float\<close>: the arithmetic on them
    is that of IEEE 754 doubles, where every operation yields the exact result rounded to
    the nearest double, ties to even (\<open>binary64\<close> below), and an \<open>int\<close> given for a \<open>float\<close>
    counts as the double of its value. \<open>int(x)\<close> is truncation toward zero. Sensor timestamps
    are integers (nanoseconds), with exact arithmetic. A rumble magnitude is the exact
    quotient that the double rounds.
  \<^item> The effects on the virtual device (\<open>dev.write\<close>, \<open>dev.syn\<close>) are returned as the list
    of device operations in the order the code performs them.
  \<^item> What the code takes from its environment is a parameter: the monotonic clock
    (\<open>time.perf_counter_ns()\<close>), the outcome of the two device constructors, the batches of
    input events the device hands out while it is readable, and the effect that
    \<open>begin_upload\<close> returns for a request.
  \<^item> Log lines are returned as a list of their levels.
\<close>

subsection \<open>Constants of the Linux input subsystem\<close>

text \<open>
  The source names device-level codes through \<open>B("NAME")\<close> (of \<^verbatim>\<open>const.py\<close>), which looks
  the name up in \<open>evdev.ecodes\<close>. The values are those of the kernel's
  \<^verbatim>\<open>input-event-codes.h\<close> and \<^verbatim>\<open>uinput.h\<close>. The source uses these thirteen names and
  no other.
\<close>

definition B :: "string \<Rightarrow> int" where
  "B n =
    (if n = ''EV_KEY'' then 1
     else if n = ''EV_ABS'' then 3
     else if n = ''EV_MSC'' then 4
     else if n = ''EV_FF'' then 21
     else if n = ''EV_UINPUT'' then 257
     else if n = ''MSC_TIMESTAMP'' then 5
     else if n = ''ABS_MT_POSITION_X'' then 53
     else if n = ''ABS_MT_POSITION_Y'' then 54
     else if n = ''ABS_MT_TRACKING_ID'' then 57
     else if n = ''BTN_TOOL_FINGER'' then 325
     else if n = ''UI_FF_UPLOAD'' then 1
     else if n = ''UI_FF_ERASE'' then 2
     else if n = ''FF_RUMBLE'' then 80
     else 0)"

subsection \<open>Data model\<close>

text \<open>
  Abstract events are dictionaries with the entries \<open>type\<close>, \<open>code\<close> and \<open>value\<close>; a rumble
  event carries \<open>weak_magnitude\<close> and \<open>strong_magnitude\<close> instead of a value. \<open>Other t c\<close>
  stands for an event of any further kind \<open>t\<close>, for which \<open>consume\<close> has no case. The value
  of a configuration event is the number that \<open>float(ev["value"])\<close> yields.
\<close>

datatype event =
    Axis string rat
  | Button string bool
  | Configuration string rat
  | Rumble string rat rat
  | Other string string

fun ev_type :: "event \<Rightarrow> string" where
  "ev_type (Axis c v) = ''axis''"
| "ev_type (Button c v) = ''button''"
| "ev_type (Configuration c v) = ''configuration''"
| "ev_type (Rumble c w g) = ''rumble''"
| "ev_type (Other t c) = t"

fun ev_code :: "event \<Rightarrow> string" where
  "ev_code (Axis c v) = c"
| "ev_code (Button c v) = c"
| "ev_code (Configuration c v) = c"
| "ev_code (Rumble c w g) = c"
| "ev_code (Other t c) = c"

text \<open>\<open>key = (ev["type"], ev["code"])\<close>\<close>

definition ev_key :: "event \<Rightarrow> string \<times> string" where
  "ev_key ev = (ev_type ev, ev_code ev)"

text \<open>The axis mapping \<open>AX\<close> of \<^verbatim>\<open>const.py\<close>: device axis id, scale, offset, optional bounds.\<close>

record AX =
  ax_id :: int
  scale :: rat
  offset :: rat
  bounds :: "(int \<times> int) option"

text \<open>\<open>output_imu_timestamps: str | bool\<close>\<close>

datatype str_or_bool = PyBool bool | PyStr string

fun truthy :: "str_or_bool \<Rightarrow> bool" where
  "truthy (PyBool b) = b"
| "truthy (PyStr s) = (s \<noteq> [])"

text \<open>The device object: its descriptor, and how it was constructed.\<close>

datatype ctor = UInputMonkey | UInput

record uinput_handle =
  h_fd :: int
  h_ctor :: ctor
  h_uniq :: "string option"

text \<open>
  An attribute that \<open>__init__\<close> does not create is \<open>Unset\<close> until a method assigns it;
  reading it while unset raises \<open>AttributeError\<close>.
\<close>

datatype 'a attr = Unset | Attr 'a

datatype py_error = AttributeError | Raised string

datatype log_level = Info | Warn | Error

text \<open>
  The instance. Of the constructor arguments that are only passed on to the device
  constructors, \<open>uniq\<close> is kept. \<open>touchpad_aspect\<close> and \<open>touch_id\<close> are created by \<open>open\<close>
  right after \<open>dev\<close> and are read only by \<open>consume\<close> behind its \<open>if not self.dev\<close> guard;
  they hold the values \<open>open\<close> gives them from the start. \<open>fd\<close> is read by \<open>produce\<close>
  without such a guard, so it is an \<open>attr\<close>.
\<close>

record uinput_device =
  btn_map :: "string \<rightharpoonup> int"
  axis_map :: "string \<rightharpoonup> AX"
  dev :: "uinput_handle option"
  uniq :: "string option"
  output_imu_timestamps :: str_or_bool
  output_timestamps :: bool
  ignore_cmds :: bool
  rumble :: "event option"
  touchpad_aspect :: rat
  touch_id :: int
  fd :: "int option attr"

definition init ::
  "(string \<rightharpoonup> int) \<Rightarrow> (string \<rightharpoonup> AX) \<Rightarrow> str_or_bool \<Rightarrow> bool \<Rightarrow> bool \<Rightarrow> string option
    \<Rightarrow> uinput_device" where
  "init bm am imu_ts out_ts ign u =
    \<lparr>btn_map = bm, axis_map = am, dev = None, uniq = u,
     output_imu_timestamps = imu_ts, output_timestamps = out_ts, ignore_cmds = ign,
     rumble = None, touchpad_aspect = 1, touch_id = 1, fd = Unset\<rparr>"

subsection \<open>\<open>consume\<close>\<close>

datatype dev_op = Write int int int | Syn

text \<open>Values stored in the per-call dictionary \<open>wrote\<close>.\<close>

datatype wrote_val = WInt int | WBool bool

type_synonym wrote_dict = "((string \<times> string) \<times> wrote_val) list"

definition in_wrote :: "string \<times> string \<Rightarrow> wrote_dict \<Rightarrow> bool" where
  "in_wrote k w = (map_of w k \<noteq> None)"

text \<open>
  Double arithmetic. A positive rational \<open>a\<close> has the binary exponent \<open>e\<close> with
  \<open>2^e \<le> a < 2^(e+1)\<close>, found from the bit lengths of its numerator and denominator. A
  double has a significand of 53 bits, so the doubles next to \<open>a\<close> are the multiples of
  \<open>2^(e - 52)\<close>, and of \<open>2^(-1074)\<close> in the subnormal range. \<open>binary64 x\<close> is the nearest of
  them, the one with the even significand when two are equally near. Doubles end at
  \<open>(2^53 - 1) * 2^971\<close> (\<open>finite64\<close>); beyond it an operation yields an infinity, on which
  \<open>int()\<close> raises, and the embedding has neither: the properties of axis values are stated
  for results within the finite doubles.
\<close>

definition round_half_even :: "rat \<Rightarrow> int" where
  "round_half_even t =
    (let f = \<lfloor>t\<rfloor>; r = t - of_int f
     in if r < 1 / 2 then f else if 1 / 2 < r then f + 1 else if even f then f else f + 1)"

definition exponent2 :: "rat \<Rightarrow> int" where
  "exponent2 a =
    (case quotient_of a of
       (p, q) \<Rightarrow> (let k = bitlen p - bitlen q in if 2 powi k \<le> a then k else k - 1))"

definition binary64 :: "rat \<Rightarrow> rat" where
  "binary64 x =
    (if x = 0 then 0
     else (let g = max (exponent2 \<bar>x\<bar> - 52) (- 1074)
           in sgn x * of_int (round_half_even (\<bar>x\<bar> / 2 powi g)) * 2 powi g))"

definition finite64 :: "rat \<Rightarrow> bool" where
  "finite64 x \<longleftrightarrow> \<bar>x\<bar> \<le> (2 ^ 53 - 1) * 2 ^ 971"

text \<open>\<open>x * y\<close> and \<open>x + y\<close> on floats; an \<open>int\<close> operand is converted to a double first.\<close>

definition fmul :: "rat \<Rightarrow> rat \<Rightarrow> rat" where
  "fmul x y = binary64 (binary64 x * binary64 y)"

definition fadd :: "rat \<Rightarrow> rat \<Rightarrow> rat" where
  "fadd x y = binary64 (binary64 x + binary64 y)"

text \<open>\<open>int(x)\<close> on a float: truncation toward zero.\<close>

definition py_int :: "rat \<Rightarrow> int" where
  "py_int x = (if 0 \<le> x then \<lfloor>x\<rfloor> else \<lceil>x\<rceil>)"

text \<open>\<open>if ax.bounds: val = min(max(val, ax.bounds[0]), ax.bounds[1])\<close>\<close>

definition clamp_bounds :: "(int \<times> int) option \<Rightarrow> int \<Rightarrow> int" where
  "clamp_bounds b val = (case b of None \<Rightarrow> val | Some (lo, hi) \<Rightarrow> min (max val lo) hi)"

text \<open>
  The test of the \<open>elif\<close>:
  \<open>(self.output_imu_timestamps is True and ev["code"] in ("accel_ts", "gyro_ts", "imu_ts"))
    or ev["code"] == self.output_imu_timestamps\<close>
\<close>

definition is_imu_ts :: "str_or_bool \<Rightarrow> string \<Rightarrow> bool" where
  "is_imu_ts o_ts c =
    ((o_ts = PyBool True \<and> c \<in> set [''accel_ts'', ''gyro_ts'', ''imu_ts''])
     \<or> PyStr c = o_ts)"

definition bool_int :: "bool \<Rightarrow> int" where
  "bool_int b = (if b then 1 else 0)"

text \<open>
  The body of the loop for an event whose key is not in \<open>wrote\<close>: the \<open>match\<close> statement.
  It returns the instance, \<open>wrote\<close>, \<open>ts\<close> and the device operations it performed.
\<close>

fun consume_ev ::
  "uinput_device \<Rightarrow> wrote_dict \<Rightarrow> int \<Rightarrow> event
    \<Rightarrow> uinput_device \<times> wrote_dict \<times> int \<times> dev_op list" where
  "consume_ev s w t (Axis c v) =
    (case axis_map s c of
       Some ax \<Rightarrow>
         (let val0 = (if c = ''touchpad_x''
                      then py_int (fmul (touchpad_aspect s) (fadd (fmul (scale ax) v) (offset ax)))
                      else py_int (fadd (fmul (scale ax) v) (offset ax)));
              val = clamp_bounds (bounds ax) val0
          in (s, ((''axis'', c), WInt val) # w, t,
              Write (B ''EV_ABS'') (ax_id ax) val #
              (if c = ''touchpad_x'' then [Write (B ''EV_ABS'') (B ''ABS_MT_POSITION_X'') val]
               else if c = ''touchpad_y'' then [Write (B ''EV_ABS'') (B ''ABS_MT_POSITION_Y'') val]
               else [])))
     | None \<Rightarrow>
         (if is_imu_ts (output_imu_timestamps s) c
          then (let t' = \<lfloor>v / 1000\<rfloor> mod 2 ^ 32
                in (s, ((''axis'', c), WInt t') # w, t',
                    [Write (B ''EV_MSC'') (B ''MSC_TIMESTAMP'') t']))
          else (s, w, t, [])))"
| "consume_ev s w t (Button c v) =
    (case btn_map s c of
       Some b \<Rightarrow>
         (if c = ''touchpad_touch''
          then (s\<lparr>touch_id := (if touch_id s + 1 > 500 then 1 else touch_id s + 1)\<rparr>,
                ((''button'', c), WBool v) # w, t,
                [Write (B ''EV_ABS'') (B ''ABS_MT_TRACKING_ID'') (if v then touch_id s else - 1),
                 Write (B ''EV_KEY'') (B ''BTN_TOOL_FINGER'') (bool_int v),
                 Write (B ''EV_KEY'') b (bool_int v)])
          else (s, ((''button'', c), WBool v) # w, t, [Write (B ''EV_KEY'') b (bool_int v)]))
     | None \<Rightarrow> (s, w, t, []))"
| "consume_ev s w t (Configuration c v) =
    (if c = ''touchpad_aspect_ratio'' then (s\<lparr>touchpad_aspect := v\<rparr>, w, t, [])
     else (s, w, t, []))"
| "consume_ev s w t (Rumble c wk sg) = (s, w, t, [])"
| "consume_ev s w t (Other ty c) = (s, w, t, [])"

text \<open>
  \<open>for ev in reversed(events)\<close>, given the reversed list: an event whose key is already in
  \<open>wrote\<close> is skipped (\<open>continue\<close>).
\<close>

fun consume_loop ::
  "uinput_device \<Rightarrow> wrote_dict \<Rightarrow> int \<Rightarrow> event list
    \<Rightarrow> uinput_device \<times> wrote_dict \<times> int \<times> dev_op list" where
  "consume_loop s w t [] = (s, w, t, [])"
| "consume_loop s w t (ev # evs) =
    (if in_wrote (ev_key ev) w then consume_loop s w t evs
     else (case consume_ev s w t ev of
             (s1, w1, t1, ops1) \<Rightarrow>
               (case consume_loop s1 w1 t1 evs of
                  (s2, w2, t2, ops2) \<Rightarrow> (s2, w2, t2, ops1 @ ops2))))"

text \<open>
  The two statements after the loop; \<open>now_ns\<close> is the value of \<open>time.perf_counter_ns()\<close>.
  The first one reassigns \<open>ts\<close>, which the second one tests.
\<close>

definition consume_finish ::
  "uinput_device \<Rightarrow> int \<Rightarrow> wrote_dict \<Rightarrow> int \<Rightarrow> dev_op list" where
  "consume_finish s now_ns w t =
    (let (t', ops1) =
           (if w \<noteq> [] \<and> output_timestamps s
            then (let u = (now_ns div 1000) mod 2 ^ 32
                  in (u, [Write (B ''EV_MSC'') (B ''MSC_TIMESTAMP'') u]))
            else (t, []))
     in ops1 @ (if w \<noteq> [] \<and> (\<not> truthy (output_imu_timestamps s) \<or> t' \<noteq> 0) then [Syn] else []))"

definition consume :: "uinput_device \<Rightarrow> int \<Rightarrow> event list \<Rightarrow> uinput_device \<times> dev_op list" where
  "consume s now_ns events =
    (if dev s = None then (s, [])
     else (case consume_loop s [] 0 (rev events) of
             (s', w, t, ops) \<Rightarrow> (s', ops @ consume_finish s' now_ns w t)))"

subsection \<open>\<open>open\<close> and \<open>close\<close>\<close>

text \<open>
  \<open>mk c\<close> is the outcome of calling the constructor \<open>c\<close>: the descriptor of the new device,
  or the exception it raises. \<open>UInputMonkey\<close> is given \<open>uniq\<close>, \<open>UInput\<close> is not. The
  result holds what \<open>open\<close> returns or raises, the instance afterwards and the log lines.
\<close>

definition open_finish ::
  "uinput_device \<Rightarrow> uinput_handle \<Rightarrow> log_level list
    \<Rightarrow> (py_error + int list) \<times> uinput_device \<times> log_level list" where
  "open_finish s h logs =
    (let s' = s\<lparr>dev := Some h, touchpad_aspect := 1, touch_id := 1, fd := Attr (Some (h_fd h))\<rparr>
     in (Inr (if ignore_cmds s' then [] else [h_fd h]), s', logs))"

definition open_device ::
  "(ctor \<Rightarrow> py_error + int) \<Rightarrow> uinput_device
    \<Rightarrow> (py_error + int list) \<times> uinput_device \<times> log_level list" where
  "open_device mk s =
    (case mk UInputMonkey of
       Inr n \<Rightarrow> open_finish s \<lparr>h_fd = n, h_ctor = UInputMonkey, h_uniq = uniq s\<rparr> [Info]
     | Inl e \<Rightarrow>
         (case mk UInput of
            Inr n \<Rightarrow> open_finish s \<lparr>h_fd = n, h_ctor = UInput, h_uniq = None\<rparr> [Info, Error]
          | Inl e' \<Rightarrow> (Inl e', s, [Info, Error])))"

text \<open>
  \<open>close\<close> returns \<open>True\<close>; the list holds the handle on which \<open>dev.close()\<close> was called.
  (\<open>self.input\<close>, which it also clears, is read nowhere.)
\<close>

definition close_device :: "uinput_device \<Rightarrow> bool \<Rightarrow> bool \<times> uinput_device \<times> uinput_handle list" where
  "close_device s exit =
    (True, s\<lparr>dev := None, fd := Attr None\<rparr>, (case dev s of Some h \<Rightarrow> [h] | None \<Rightarrow> []))"

subsection \<open>\<open>produce\<close>\<close>

record input_event =
  ie_type :: int
  ie_code :: int
  ie_value :: int

text \<open>The uploaded effect: \<open>upload.effect.type\<close> and the fields of \<open>u.ff_rumble_effect\<close>.\<close>

record ff_effect =
  ff_type :: int
  weak_magnitude :: int
  strong_magnitude :: int

text \<open>The answers written back to the device: \<open>end_upload\<close>, and \<open>end_erase\<close> with its \<open>retval\<close>.\<close>

datatype ack = EndUpload int | EndErase int int

type_synonym produce_acc = "uinput_device \<times> event list \<times> log_level list \<times> ack list"

text \<open>The body of \<open>for ev in self.dev.read()\<close>; \<open>out.append\<close> adds at the end.\<close>

definition produce_ev :: "(int \<Rightarrow> ff_effect) \<Rightarrow> produce_acc \<Rightarrow> input_event \<Rightarrow> produce_acc" where
  "produce_ev begin_upload acc ev =
    (case acc of (s, out, logs, acks) \<Rightarrow>
      if ie_type ev = B ''EV_MSC'' \<and> ie_code ev = B ''MSC_TIMESTAMP'' then (s, out, logs, acks)
      else if ie_type ev = B ''EV_UINPUT'' then
        (if ie_code ev = B ''UI_FF_UPLOAD'' then
           (let data = begin_upload (ie_value ev);
                s' = (if ff_type data = B ''FF_RUMBLE''
                      then s\<lparr>rumble := Some (Rumble ''main''
                                 (of_int (weak_magnitude data) / 65535)
                                 (of_int (strong_magnitude data) / 65535))\<rparr>
                      else s)
            in (s', out, logs, acks @ [EndUpload (ie_value ev)]))
         else if ie_code ev = B ''UI_FF_ERASE'' then (s, out, logs, acks @ [EndErase (ie_value ev) 0])
         else (s, out, logs, acks))
      else if ie_type ev = B ''EV_FF'' \<and> ie_value ev \<noteq> 0 then
        (case rumble s of
           Some r \<Rightarrow> (s, out @ [r], logs, acks)
         | None \<Rightarrow> (s, out, logs @ [Warn], acks))
      else if ie_type ev = B ''EV_FF'' \<and> ie_value ev = 0 then
        (s, out @ [Rumble ''main'' 0 0], logs, acks)
      else (s, out, logs @ [Info], acks))"

fun produce_batch :: "(int \<Rightarrow> ff_effect) \<Rightarrow> produce_acc \<Rightarrow> input_event list \<Rightarrow> produce_acc" where
  "produce_batch begin_upload acc [] = acc"
| "produce_batch begin_upload acc (ev # evs) =
    produce_batch begin_upload (produce_ev begin_upload acc ev) evs"

text \<open>
  \<open>while can_read(self.fd): for ev in self.dev.read(): ...\<close>, given the batches that the
  device hands out until it is no longer readable.
\<close>

fun produce_loop :: "(int \<Rightarrow> ff_effect) \<Rightarrow> produce_acc \<Rightarrow> input_event list list \<Rightarrow> produce_acc" where
  "produce_loop begin_upload acc [] = acc"
| "produce_loop begin_upload acc (batch # reads) =
    produce_loop begin_upload (produce_batch begin_upload acc batch) reads"

text \<open>
  The guard is \<open>self.ignore_cmds or not self.fd or not self.fd in fds or not self.dev\<close>,
  evaluated from left to right: \<open>self.fd\<close> is read unless \<open>ignore_cmds\<close> is set, and both
  \<open>None\<close> and the descriptor \<open>0\<close> are false.
\<close>

definition produce ::
  "uinput_device \<Rightarrow> (int \<Rightarrow> ff_effect) \<Rightarrow> input_event list list \<Rightarrow> int list
    \<Rightarrow> py_error + produce_acc" where
  "produce s begin_upload reads fds =
    (if ignore_cmds s then Inr (s, [], [], [])
     else (case fd s of
             Unset \<Rightarrow> Inl AttributeError
           | Attr None \<Rightarrow> Inr (s, [], [], [])
           | Attr (Some n) \<Rightarrow>
               if n = 0 \<or> n \<notin> set fds \<or> dev s = None then Inr (s, [], [], [])
               else Inr (produce_loop begin_upload (s, [], [], []) reads)))"

subsection \<open>Notions used to state the properties\<close>

text \<open>
  The events \<open>consume\<close> writes for: a mapped axis, a selected sensor timestamp, a mapped
  button. These are the tests that guard the writes in the loop body.
\<close>

fun registers :: "uinput_device \<Rightarrow> event \<Rightarrow> bool" where
  "registers s (Axis c v) = (axis_map s c \<noteq> None \<or> is_imu_ts (output_imu_timestamps s) c)"
| "registers s (Button c v) = (btn_map s c \<noteq> None)"
| "registers s ev = False"

text \<open>The attributes that \<open>consume\<close> never assigns.\<close>

definition same_config :: "uinput_device \<Rightarrow> uinput_device \<Rightarrow> bool" where
  "same_config s s' \<longleftrightarrow>
     btn_map s' = btn_map s \<and> axis_map s' = axis_map s \<and> dev s' = dev s \<and> uniq s' = uniq s \<and>
     output_imu_timestamps s' = output_imu_timestamps s \<and>
     output_timestamps s' = output_timestamps s \<and> ignore_cmds s' = ignore_cmds s \<and>
     rumble s' = rumble s \<and> fd s' = fd s"

text \<open>The values of the \<open>touchpad_aspect_ratio\<close> configuration events of a batch, in order.\<close>

fun aspect_values :: "event list \<Rightarrow> rat list" where
  "aspect_values [] = []"
| "aspect_values (Configuration c v # evs) =
    (if c = ''touchpad_aspect_ratio'' then v # aspect_values evs else aspect_values evs)"
| "aspect_values (ev # evs) = aspect_values evs"

definition no_config_key :: "wrote_dict \<Rightarrow> bool" where
  "no_config_key w = list_all (\<lambda>p. fst (fst p) \<noteq> ''configuration'') w"

text \<open>Timestamp writes among the device operations, and those of value \<open>0\<close>.\<close>

fun is_ts_write :: "dev_op \<Rightarrow> bool" where
  "is_ts_write (Write a c v) = (a = B ''EV_MSC'' \<and> c = B ''MSC_TIMESTAMP'')"
| "is_ts_write Syn = False"

fun is_zero_ts :: "dev_op \<Rightarrow> bool" where
  "is_zero_ts (Write a c v) = (a = B ''EV_MSC'' \<and> c = B ''MSC_TIMESTAMP'' \<and> v = 0)"
| "is_zero_ts Syn = False"

text \<open>
  The input events that replace the stored rumble effect (the test of the upload branch
  of \<open>produce\<close>), the effect such an event stores, and the effect stored after a sequence
  of input events: that of the last upload, if there is one.
\<close>

definition is_rumble_upload :: "(int \<Rightarrow> ff_effect) \<Rightarrow> input_event \<Rightarrow> bool" where
  "is_rumble_upload begin_upload ev \<longleftrightarrow>
     ie_type ev = B ''EV_UINPUT'' \<and> ie_code ev = B ''UI_FF_UPLOAD''
     \<and> ff_type (begin_upload (ie_value ev)) = B ''FF_RUMBLE''"

definition uploaded_rumble :: "(int \<Rightarrow> ff_effect) \<Rightarrow> input_event \<Rightarrow> event" where
  "uploaded_rumble begin_upload ev =
     Rumble ''main''
       (of_int (weak_magnitude (begin_upload (ie_value ev))) / 65535)
       (of_int (strong_magnitude (begin_upload (ie_value ev))) / 65535)"

definition rumble_after ::
  "(int \<Rightarrow> ff_effect) \<Rightarrow> event option \<Rightarrow> input_event list \<Rightarrow> event option" where
  "rumble_after begin_upload r evs =
     (case filter (is_rumble_upload begin_upload) evs of
        [] \<Rightarrow> r
      | u # us \<Rightarrow> Some (uploaded_rumble begin_upload (last (u # us))))"

subsection \<open>What the specification says, where the code is compared with it\<close>

text \<open>
  The value of an axis event according to the specification: \<open>scale * raw + offset\<close>,
  multiplied by the aspect ratio for the horizontal and for the vertical touch axis,
  then clamped to the bounds if there are any.
\<close>

definition spec_axis_value :: "rat \<Rightarrow> AX \<Rightarrow> string \<Rightarrow> rat \<Rightarrow> rat" where
  "spec_axis_value aspect ax c raw =
    (let x = scale ax * raw + offset ax;
         y = (if c = ''touchpad_x'' \<or> c = ''touchpad_y'' then aspect * x else x)
     in case bounds ax of None \<Rightarrow> y | Some (lo, hi) \<Rightarrow> min (max y (of_int lo)) (of_int hi))"

text \<open>
  The synchronisation condition according to the specification: something was written,
  and sensor-timestamp output is disabled or a sensor timestamp was written by the loop
  of this call.
\<close>

definition spec_sync :: "uinput_device \<Rightarrow> event list \<Rightarrow> bool" where
  "spec_sync s events =
    (case consume_loop s [] 0 (rev events) of
       (s', w, t, ops) \<Rightarrow>
         ops \<noteq> [] \<and> (\<not> truthy (output_imu_timestamps s) \<or> list_ex is_ts_write ops))"

subsection \<open>An instance for the concrete inputs\<close>

text \<open>
  A device with one button, the touch button, a stick axis and the two touch axes,
  opened with descriptor \<open>7\<close>; and an upload whose effect is a rumble with magnitudes
  \<open>0xFFFF\<close> and \<open>0x8000\<close>.
\<close>

definition pad :: "str_or_bool \<Rightarrow> bool \<Rightarrow> uinput_device" where
  "pad imu_ts out_ts =
     fst (snd (open_device (\<lambda>c. Inr 7)
       (init [''a'' \<mapsto> 304, ''touchpad_touch'' \<mapsto> 330]
             [''left_stick_x'' \<mapsto> \<lparr>ax_id = 0, scale = 1, offset = 0, bounds = Some (- 32767, 32767)\<rparr>,
              ''touchpad_x'' \<mapsto> \<lparr>ax_id = 0, scale = 1023, offset = 0, bounds = Some (0, 2048)\<rparr>,
              ''touchpad_y'' \<mapsto> \<lparr>ax_id = 1, scale = 1023, offset = 0, bounds = Some (0, 2048)\<rparr>]
             imu_ts out_ts False None)))"

definition ff_upload :: "int \<Rightarrow> ff_effect" where
  "ff_upload r = \<lparr>ff_type = 80, weak_magnitude = 65535, strong_magnitude = 32768\<rparr>"

section \<open>Properties\<close>

subsection \<open>Basic facts about the loop of \<open>consume\<close>\<close>


lemma B_simps:
  "B ''EV_KEY'' = 1" "B ''EV_ABS'' = 3" "B ''EV_MSC'' = 4" "B ''EV_FF'' = 21"
  "B ''EV_UINPUT'' = 257" "B ''MSC_TIMESTAMP'' = 5" "B ''ABS_MT_POSITION_X'' = 53"
  "B ''ABS_MT_POSITION_Y'' = 54" "B ''ABS_MT_TRACKING_ID'' = 57" "B ''BTN_TOOL_FINGER'' = 325"
  "B ''UI_FF_UPLOAD'' = 1" "B ''UI_FF_ERASE'' = 2" "B ''FF_RUMBLE'' = 80"
  by (simp_all add: B_def)

lemma same_config_refl: "same_config s s"
  by (simp add: same_config_def)

lemma same_config_trans: "same_config s s1 \<Longrightarrow> same_config s1 s2 \<Longrightarrow> same_config s s2"
  by (simp add: same_config_def)

lemma consume_ev_config:
  "consume_ev s w t ev = (s', w', t', ops) \<Longrightarrow> same_config s s'"
  by (cases ev) (auto simp: same_config_def Let_def split: option.splits if_splits)

lemma consume_loop_config:
  "consume_loop s w t xs = (s', w', t', ops) \<Longrightarrow> same_config s s'"
proof (induction xs arbitrary: s w t s' w' t' ops)
  case Nil
  then show ?case by (simp add: same_config_refl)
next
  case (Cons x xs)
  show ?case
  proof (cases "in_wrote (ev_key x) w")
    case True
    with Cons show ?thesis by simp
  next
    case False
    obtain s1 w1 t1 o1 where e1: "consume_ev s w t x = (s1, w1, t1, o1)"
      by (cases "consume_ev s w t x") auto
    obtain s2 w2 t2 o2 where e2: "consume_loop s1 w1 t1 xs = (s2, w2, t2, o2)"
      by (cases "consume_loop s1 w1 t1 xs") auto
    from Cons.prems False e1 e2 have "s' = s2" by simp
    with consume_ev_config[OF e1] Cons.IH[OF e2] show ?thesis
      by (blast intro: same_config_trans)
  qed
qed

lemma registers_config: "same_config s s' \<Longrightarrow> registers s' ev = registers s ev"
  by (cases ev) (simp_all add: same_config_def)

lemma consume_ev_registers:
  "consume_ev s w t ev = (s', w', t', ops) \<Longrightarrow> registers s ev
    \<Longrightarrow> (\<exists>x. w' = (ev_key ev, x) # w) \<and> ops \<noteq> []"
  by (cases ev) (auto simp: Let_def ev_key_def split: option.splits if_splits)

lemma consume_ev_not_registers:
  "consume_ev s w t ev = (s', w', t', ops) \<Longrightarrow> \<not> registers s ev
    \<Longrightarrow> w' = w \<and> t' = t \<and> ops = []"
  by (cases ev) (auto simp: Let_def split: option.splits if_splits)

lemma in_wrote_Cons: "in_wrote k ((k', x) # w) \<longleftrightarrow> k = k' \<or> in_wrote k w"
  by (auto simp: in_wrote_def)

lemma consume_ev_wrote:
  "consume_ev s w t ev = (s', w', t', ops)
    \<Longrightarrow> in_wrote k w' \<longleftrightarrow> in_wrote k w \<or> (registers s ev \<and> k = ev_key ev)"
  using consume_ev_registers[of s w t ev s' w' t' ops]
        consume_ev_not_registers[of s w t ev s' w' t' ops]
  by (cases "registers s ev") (auto simp: in_wrote_Cons)

lemma consume_loop_append:
  "consume_loop s w t (xs @ ys) =
    (case consume_loop s w t xs of
       (s1, w1, t1, o1) \<Rightarrow>
         (case consume_loop s1 w1 t1 ys of (s2, w2, t2, o2) \<Rightarrow> (s2, w2, t2, o1 @ o2)))"
  by (induction xs arbitrary: s w t) (auto split: prod.splits)

lemma consume_loop_wrote:
  "consume_loop s w t xs = (s', w', t', ops)
    \<Longrightarrow> in_wrote k w' \<longleftrightarrow> in_wrote k w \<or> (\<exists>x \<in> set xs. registers s x \<and> k = ev_key x)"
proof (induction xs arbitrary: s w t s' w' t' ops)
  case Nil
  then show ?case by simp
next
  case (Cons x xs)
  show ?case
  proof (cases "in_wrote (ev_key x) w")
    case True
    with Cons.prems have "consume_loop s w t xs = (s', w', t', ops)" by simp
    from Cons.IH[OF this] True show ?thesis by auto
  next
    case False
    obtain s1 w1 t1 o1 where e1: "consume_ev s w t x = (s1, w1, t1, o1)"
      by (cases "consume_ev s w t x") auto
    obtain s2 w2 t2 o2 where e2: "consume_loop s1 w1 t1 xs = (s2, w2, t2, o2)"
      by (cases "consume_loop s1 w1 t1 xs") auto
    from Cons.prems False e1 e2 have eq: "w' = w2" by simp
    have reg: "\<And>y. registers s1 y = registers s y"
      using consume_ev_config[OF e1] by (rule registers_config)
    from Cons.IH[OF e2] consume_ev_wrote[OF e1] eq reg show ?thesis by auto
  qed
qed

lemma consume_loop_drop:
  "in_wrote k w \<Longrightarrow> consume_loop s w t xs = consume_loop s w t [x \<leftarrow> xs. ev_key x \<noteq> k]"
proof (induction xs arbitrary: s w t)
  case Nil
  then show ?case by simp
next
  case (Cons x xs)
  show ?case
  proof (cases "in_wrote (ev_key x) w")
    case True
    with Cons show ?thesis by simp
  next
    case False
    with Cons.prems have ne: "ev_key x \<noteq> k" by auto
    obtain s1 w1 t1 o1 where e1: "consume_ev s w t x = (s1, w1, t1, o1)"
      by (cases "consume_ev s w t x") auto
    from consume_ev_wrote[OF e1] Cons.prems have "in_wrote k w1" by simp
    from Cons.IH[OF this] False ne e1 show ?thesis by simp
  qed
qed


lemma pad_simps:
  "dev (pad i t) = Some \<lparr>h_fd = 7, h_ctor = UInputMonkey, h_uniq = None\<rparr>"
  "fd (pad i t) = Attr (Some 7)" "ignore_cmds (pad i t) = False" "rumble (pad i t) = None"
  "touch_id (pad i t) = 1" "touchpad_aspect (pad i t) = 1"
  "output_imu_timestamps (pad i t) = i" "output_timestamps (pad i t) = t"
  "btn_map (pad i t) ''a'' = Some 304" "btn_map (pad i t) ''touchpad_touch'' = Some 330"
  "axis_map (pad i t) ''touchpad_y''
     = Some \<lparr>ax_id = 1, scale = 1023, offset = 0, bounds = Some (0, 2048)\<rparr>"
  "axis_map (pad i t) ''touchpad_x''
     = Some \<lparr>ax_id = 0, scale = 1023, offset = 0, bounds = Some (0, 2048)\<rparr>"
  "axis_map (pad i t) ''left_stick_x''
     = Some \<lparr>ax_id = 0, scale = 1, offset = 0, bounds = Some (- 32767, 32767)\<rparr>"
  "axis_map (pad i t) ''gyro_ts'' = None"
  "axis_map (pad i t) ''dpad_x'' = None"
  by (simp_all add: pad_def open_device_def open_finish_def init_def Let_def)

text \<open>
  The latest event of a key that \<open>consume\<close> writes for: the loop first handles the events
  after it, then the event itself, then the events before it, among which those of the
  same key are skipped.
\<close>

lemma consume_loop_latest:
  assumes later: "\<forall>x \<in> set post. ev_key x \<noteq> ev_key e"
    and fresh: "\<not> in_wrote (ev_key e) w"
    and reg: "registers s e"
  shows "consume_loop s w t (rev (pre @ e # post)) =
    (case consume_loop s w t (rev post) of
       (s1, w1, t1, o1) \<Rightarrow>
         (case consume_ev s1 w1 t1 e of
            (s2, w2, t2, o2) \<Rightarrow>
              (case consume_loop s2 w2 t2 (rev [x \<leftarrow> pre. ev_key x \<noteq> ev_key e]) of
                 (s3, w3, t3, o3) \<Rightarrow> (s3, w3, t3, o1 @ o2 @ o3))))"
proof -
  obtain s1 w1 t1 o1 where e1: "consume_loop s w t (rev post) = (s1, w1, t1, o1)"
    by (cases "consume_loop s w t (rev post)") auto
  obtain s2 w2 t2 o2 where e2: "consume_ev s1 w1 t1 e = (s2, w2, t2, o2)"
    by (cases "consume_ev s1 w1 t1 e") auto
  have n1: "\<not> in_wrote (ev_key e) w1"
    using consume_loop_wrote[OF e1, of "ev_key e"] later fresh by auto
  have "registers s1 e"
    using registers_config[OF consume_loop_config[OF e1]] reg by simp
  from consume_ev_registers[OF e2 this] have i2: "in_wrote (ev_key e) w2"
    by (auto simp: in_wrote_Cons)
  have "consume_loop s2 w2 t2 (rev pre) =
        consume_loop s2 w2 t2 (rev [x \<leftarrow> pre. ev_key x \<noteq> ev_key e])"
    using consume_loop_drop[OF i2, of s2 t2 "rev pre"] by (simp add: rev_filter)
  then show ?thesis
    using e1 e2 n1 by (simp add: consume_loop_append split: prod.splits)
qed



subsection \<open>The aspect ratio during a batch\<close>

lemma aspect_values_append: "aspect_values (xs @ ys) = aspect_values xs @ aspect_values ys"
  by (induction xs rule: aspect_values.induct) auto

lemma aspect_values_rev: "aspect_values (rev xs) = rev (aspect_values xs)"
  by (induction xs rule: aspect_values.induct) (auto simp: aspect_values_append)

lemma no_config_key_in_wrote:
  "no_config_key w \<Longrightarrow> \<not> in_wrote (''configuration'', c) w"
  by (induction w) (auto simp: no_config_key_def in_wrote_def)

lemma consume_ev_no_config_key:
  "consume_ev s w t ev = (s', w', t', ops) \<Longrightarrow> no_config_key w \<Longrightarrow> no_config_key w'"
  by (cases ev) (auto simp: no_config_key_def Let_def split: option.splits if_splits)

lemma consume_ev_aspect:
  "consume_ev s w t ev = (s', w', t', ops)
    \<Longrightarrow> touchpad_aspect s' = (case aspect_values [ev] of [] \<Rightarrow> touchpad_aspect s | v # vs \<Rightarrow> v)"
  by (cases ev) (auto simp: Let_def split: option.splits if_splits)

lemma consume_loop_aspect:
  "consume_loop s w t xs = (s', w', t', ops) \<Longrightarrow> no_config_key w
    \<Longrightarrow> no_config_key w'
        \<and> touchpad_aspect s' =
            (if aspect_values xs = [] then touchpad_aspect s else last (aspect_values xs))"
proof (induction xs arbitrary: s w t s' w' t' ops)
  case Nil
  then show ?case by simp
next
  case (Cons x xs)
  obtain s1 w1 t1 o1 where e1: "consume_ev s w t x = (s1, w1, t1, o1)"
    by (cases "consume_ev s w t x") auto
  obtain s2 w2 t2 o2 where e2: "consume_loop s1 w1 t1 xs = (s2, w2, t2, o2)"
    by (cases "consume_loop s1 w1 t1 xs") auto
  show ?case
  proof (cases "in_wrote (ev_key x) w")
    case True
    then have nc: "aspect_values (x # xs) = aspect_values xs"
      using no_config_key_in_wrote[OF Cons.prems(2)]
      by (cases x) (auto simp: ev_key_def)
    from True Cons.prems have "consume_loop s w t xs = (s', w', t', ops)" by simp
    from Cons.IH[OF this Cons.prems(2)] nc show ?thesis by simp
  next
    case False
    with Cons.prems e1 e2 have eq: "s' = s2" "w' = w2" by simp_all
    have ih: "no_config_key w2 \<and> touchpad_aspect s2 =
            (if aspect_values xs = [] then touchpad_aspect s1 else last (aspect_values xs))"
      using Cons.IH[OF e2 consume_ev_no_config_key[OF e1 Cons.prems(2)]] .
    show ?thesis
      using ih consume_ev_aspect[OF e1] eq
      by (cases x) (auto split: if_splits)
  qed
qed

lemma aspect_unchanged:
  "aspect_values events = []
    \<Longrightarrow> touchpad_aspect (fst (consume s now_ns events)) = touchpad_aspect s"
proof -
  assume av: "aspect_values events = []"
  obtain s' w t ops where e: "consume_loop s [] 0 (rev events) = (s', w, t, ops)"
    by (cases "consume_loop s [] 0 (rev events)") auto
  have "no_config_key []" by (simp add: no_config_key_def)
  from consume_loop_aspect[OF e this] av
  have "touchpad_aspect s' = touchpad_aspect s"
    by (simp_all add: aspect_values_rev)
  with e show ?thesis by (simp add: consume_def)
qed

text \<open>
  C10. When a batch given to an open device holds configuration events with the code
  \<open>touchpad_aspect_ratio\<close>, the aspect ratio after \<open>consume\<close> is the value of the earliest
  of them: no key of a configuration event is ever entered in \<open>wrote\<close>, so none of them is
  skipped, and the reverse iteration handles the earliest one last.
\<close>

theorem aspect_earliest_wins:
  "dev s \<noteq> None \<Longrightarrow> aspect_values events = v # vs
    \<Longrightarrow> touchpad_aspect (fst (consume s now_ns events)) = v
        \<and> (case consume_loop s [] 0 (rev events) of (s', w, t, ops) \<Rightarrow> no_config_key w)"
proof -
  assume open_: "dev s \<noteq> None" and av: "aspect_values events = v # vs"
  obtain s' w t ops where e: "consume_loop s [] 0 (rev events) = (s', w, t, ops)"
    by (cases "consume_loop s [] 0 (rev events)") auto
  have "no_config_key []" by (simp add: no_config_key_def)
  from consume_loop_aspect[OF e this] av
  have "no_config_key w" "touchpad_aspect s' = v"
    by (simp_all add: aspect_values_rev last_rev)
  with open_ e show ?thesis by (auto simp: consume_def)
qed

theorem aspect_earliest_wins_witness:
  "touchpad_aspect (fst (consume (pad (PyBool False) False) 0
      [Configuration ''touchpad_aspect_ratio'' 2, Button ''a'' True,
       Configuration ''touchpad_aspect_ratio'' 3])) = 2"
  using aspect_earliest_wins [where s = "pad (PyBool False) False"
      and events = "[Configuration ''touchpad_aspect_ratio'' 2, Button ''a'' True,
        Configuration ''touchpad_aspect_ratio'' 3]"
      and v = 2 and vs = "[3]" and now_ns = 0]
  by (simp add: pad_simps)

subsection \<open>Double arithmetic\<close>

text \<open>The exponent found from the bit lengths is the binary exponent.\<close>

lemma powi_nat: "0 \<le> n \<Longrightarrow> (2::rat) powi n = 2 ^ nat n"
  by (simp add: power_int_def)

lemma exponent2_bounds:
  assumes "0 < a"
  shows "2 powi exponent2 a \<le> a \<and> a < 2 powi (exponent2 a + 1)"
proof -
  obtain p q where pq: "quotient_of a = (p, q)" by (cases "quotient_of a") auto
  then have q: "0 < q" and a: "a = of_int p / of_int q"
    using quotient_of_denom_pos[OF pq] quotient_of_div[OF pq] by auto
  with assms have p: "0 < p"
    by (simp add: zero_less_divide_iff)
  let ?bp = "bitlen p" and ?bq = "bitlen q"
  from bitlen_bounds[OF p] have p1: "2 ^ nat (?bp - 1) \<le> p" and p2: "p < 2 ^ nat ?bp" by auto
  from bitlen_bounds[OF q] have q1: "2 ^ nat (?bq - 1) \<le> q" and q2: "q < 2 ^ nat ?bq" by auto
  have bp: "1 \<le> ?bp" and bq: "1 \<le> ?bq"
    using p q by (auto simp: bitlen_alt_def)
  have P1: "(2::rat) powi (?bp - 1) \<le> of_int p"
    using p1 bp by (simp add: powi_nat)
  have P2: "of_int p < (2::rat) powi ?bp"
    using p2 bp by (simp add: powi_nat)
  have Q1: "(2::rat) powi (?bq - 1) \<le> of_int q"
    using q1 bq by (simp add: powi_nat)
  have Q2: "of_int q < (2::rat) powi ?bq"
    using q2 bq by (simp add: powi_nat)
  have qpos: "(0::rat) < of_int q" using q by simp
  have up: "a < 2 powi (?bp - ?bq + 1)"
  proof -
    have "a * of_int q = of_int p" using a qpos by simp
    also have "\<dots> < 2 powi ?bp" by (rule P2)
    also have "\<dots> = 2 powi (?bp - ?bq + 1) * 2 powi (?bq - 1)"
      by (simp add: power_int_add[symmetric])
    also have "\<dots> \<le> 2 powi (?bp - ?bq + 1) * of_int q"
      using Q1 by (simp add: mult_left_mono)
    finally show ?thesis using qpos by simp
  qed
  have lo: "2 powi (?bp - ?bq - 1) < a"
  proof -
    have "(2::rat) powi (?bp - ?bq - 1) * of_int q < 2 powi (?bp - ?bq - 1) * 2 powi ?bq"
      using Q2 by (simp add: mult_strict_left_mono)
    also have "\<dots> = 2 powi (?bp - 1)"
      by (simp add: power_int_add[symmetric])
    also have "\<dots> \<le> of_int p" by (rule P1)
    also have "\<dots> = a * of_int q" using a qpos by simp
    finally show ?thesis using qpos by simp
  qed
  show ?thesis
    using up lo pq by (auto simp: exponent2_def Let_def)
qed

lemma round_half_even_nearest: "\<bar>of_int (round_half_even t) - t\<bar> \<le> 1 / 2"
proof -
  have fl: "of_int \<lfloor>t\<rfloor> \<le> t" "t < of_int \<lfloor>t\<rfloor> + 1"
    by linarith+
  show ?thesis
  proof (cases "t - of_int \<lfloor>t\<rfloor> < 1 / 2")
    case True
    with fl show ?thesis by (simp add: round_half_even_def Let_def)
  next
    case False
    with fl have "\<bar>of_int (\<lfloor>t\<rfloor> + 1) - t\<bar> \<le> 1 / 2" by simp
    moreover from False fl have "t - of_int \<lfloor>t\<rfloor> = 1 / 2 \<Longrightarrow> \<bar>of_int \<lfloor>t\<rfloor> - t\<bar> \<le> 1 / 2"
      by simp
    ultimately show ?thesis
      using False by (auto simp: round_half_even_def Let_def)
  qed
qed

text \<open>
  Values of the rounding: the doubles of \<open>1/3\<close>, \<open>4/3\<close> and \<open>1/10\<close>, a tie above \<open>2^53\<close> going to
  the even significand, and the products \<open>1023 * (1/3)\<close> and \<open>(4/3) * 1023\<close>, which in
  doubles are \<open>341\<close> and \<open>1364\<close> although the exact products of the operands lie below.
\<close>

lemma binary64_examples:
  "binary64 (1 / 3) = 6004799503160661 / 18014398509481984"
  "binary64 (4 / 3) = 6004799503160661 / 4503599627370496"
  "binary64 (1 / 10) = 3602879701896397 / 36028797018963968"
  "binary64 (2 ^ 53 + 1) = 2 ^ 53"
  "binary64 (2 ^ 53 + 3) = 2 ^ 53 + 4"
  "fmul 1023 (6004799503160661 / 18014398509481984) = 341"
  "fmul (6004799503160661 / 4503599627370496) 1023 = 1364"
  by code_simp+

lemma float_steps:
  "fadd (fmul 1023 1) 0 = 1023"
  "fadd (fmul 1023 (6004799503160661 / 18014398509481984)) 0 = 341"
  "fmul 2 341 = 682"
  "finite64 (fmul 1023 (6004799503160661 / 18014398509481984))"
  "finite64 341" "finite64 682"
  by code_simp+

subsection \<open>Axis values\<close>

lemma consume_ev_axis:
  "axis_map s c = Some ax \<Longrightarrow>
     consume_ev s w t (Axis c v) =
       (let val = clamp_bounds (bounds ax)
                    (if c = ''touchpad_x''
                     then py_int (fmul (touchpad_aspect s) (fadd (fmul (scale ax) v) (offset ax)))
                     else py_int (fadd (fmul (scale ax) v) (offset ax)))
        in (s, ((''axis'', c), WInt val) # w, t,
            Write (B ''EV_ABS'') (ax_id ax) val #
            (if c = ''touchpad_x'' then [Write (B ''EV_ABS'') (B ''ABS_MT_POSITION_X'') val]
             else if c = ''touchpad_y'' then [Write (B ''EV_ABS'') (B ''ABS_MT_POSITION_Y'') val]
             else [])))"
  by (simp add: Let_def)

text \<open>
  The touch value \<open>1/3\<close> (its double) at scale \<open>1023\<close> is written as \<open>341\<close>: the product is
  rounded to a double before \<open>int()\<close> truncates it.
\<close>

lemma touchpad_y_third:
  "snd (consume (pad (PyBool False) False) 0
          [Axis ''touchpad_y'' (6004799503160661 / 18014398509481984)])
     = [Write 3 1 341, Write 3 54 341, Syn]"
  by (simp add: consume_def consume_finish_def pad_simps ev_key_def in_wrote_def py_int_def
      clamp_bounds_def float_steps B_simps Let_def)

text \<open>
  C1, as the code has it. For a mapped axis event that is the latest of its key in a batch
  given to an open device, \<open>consume\<close> computes \<open>scale * raw + offset\<close> in double arithmetic,
  truncates it toward zero to an integer and clamps that to the bounds if there are any.
  Only for \<open>touchpad_x\<close> is \<open>scale * raw + offset\<close> first multiplied by the aspect ratio
  (before the truncation and the clamp); \<open>touchpad_y\<close> is not multiplied. The aspect ratio is
  the one in force when the event is handled: that of the earliest \<open>touchpad_aspect_ratio\<close>
  event later in the batch, else that of the instance. For \<open>touchpad_x\<close> and for
  \<open>touchpad_y\<close> the same value is written once more, right after, to the multi-touch
  position axis. The results of the double operations are taken to be finite.
\<close>

theorem axis_value_written:
  assumes open_: "dev s \<noteq> None"
    and mapped: "axis_map s c = Some ax"
    and later: "\<forall>x \<in> set post. ev_key x \<noteq> (''axis'', c)"
    and finite_product: "finite64 (fmul (scale ax) v)"
    and finite_sum: "finite64 (fadd (fmul (scale ax) v) (offset ax))"
    and finite_aspect:
      "c = ''touchpad_x'' \<longrightarrow>
         finite64 (fmul (case aspect_values post of [] \<Rightarrow> touchpad_aspect s | r # rs \<Rightarrow> r)
                     (fadd (fmul (scale ax) v) (offset ax)))"
  shows "\<exists>before after.
           snd (consume s now_ns (pre @ Axis c v # post)) =
             before
             @ (let a = (case aspect_values post of [] \<Rightarrow> touchpad_aspect s | r # rs \<Rightarrow> r);
                    val = clamp_bounds (bounds ax)
                            (if c = ''touchpad_x''
                             then py_int (fmul a (fadd (fmul (scale ax) v) (offset ax)))
                             else py_int (fadd (fmul (scale ax) v) (offset ax)))
                in Write (B ''EV_ABS'') (ax_id ax) val #
                   (if c = ''touchpad_x''
                    then [Write (B ''EV_ABS'') (B ''ABS_MT_POSITION_X'') val]
                    else if c = ''touchpad_y''
                    then [Write (B ''EV_ABS'') (B ''ABS_MT_POSITION_Y'') val]
                    else []))
             @ after"
proof -
  let ?e = "Axis c v"
  let ?pre' = "[x \<leftarrow> pre. ev_key x \<noteq> ev_key ?e]"
  have k: "ev_key ?e = (''axis'', c)" by (simp add: ev_key_def)
  have reg: "registers s ?e" using mapped by simp
  have fresh: "\<not> in_wrote (ev_key ?e) []" by (simp add: in_wrote_def)
  obtain s1 w1 t1 o1 where e1: "consume_loop s [] 0 (rev post) = (s1, w1, t1, o1)"
    by (cases "consume_loop s [] 0 (rev post)") auto
  have m1: "axis_map s1 c = Some ax"
    using consume_loop_config[OF e1] mapped by (simp add: same_config_def)
  have "no_config_key []" by (simp add: no_config_key_def)
  from consume_loop_aspect[OF e1 this]
  have a1: "touchpad_aspect s1 = (case aspect_values post of [] \<Rightarrow> touchpad_aspect s | r # rs \<Rightarrow> r)"
    by (cases "aspect_values post") (simp_all add: aspect_values_rev last_rev)
  obtain s2 w2 t2 o2 where e2: "consume_ev s1 w1 t1 ?e = (s2, w2, t2, o2)"
    by (cases "consume_ev s1 w1 t1 ?e") auto
  have o2: "o2 =
      (let a = (case aspect_values post of [] \<Rightarrow> touchpad_aspect s | r # rs \<Rightarrow> r);
           val = clamp_bounds (bounds ax)
                   (if c = ''touchpad_x''
                    then py_int (fmul a (fadd (fmul (scale ax) v) (offset ax)))
                    else py_int (fadd (fmul (scale ax) v) (offset ax)))
       in Write (B ''EV_ABS'') (ax_id ax) val #
          (if c = ''touchpad_x'' then [Write (B ''EV_ABS'') (B ''ABS_MT_POSITION_X'') val]
           else if c = ''touchpad_y'' then [Write (B ''EV_ABS'') (B ''ABS_MT_POSITION_Y'') val]
           else []))"
    using e2 consume_ev_axis[OF m1, of w1 t1 v] a1 by (simp add: Let_def)
  obtain s3 w3 t3 o3 where e3: "consume_loop s2 w2 t2 (rev ?pre') = (s3, w3, t3, o3)"
    by (cases "consume_loop s2 w2 t2 (rev ?pre')") auto
  have full: "consume_loop s [] 0 (rev (pre @ ?e # post)) = (s3, w3, t3, o1 @ o2 @ o3)"
    using consume_loop_latest[OF _ fresh reg, of post 0 pre] later k e1 e2 e3 by simp
  have "snd (consume s now_ns (pre @ ?e # post)) =
          o1 @ o2 @ (o3 @ consume_finish s3 now_ns w3 t3)"
    using open_ full by (auto simp: consume_def)
  then show ?thesis unfolding o2 by blast
qed

theorem axis_value_written_witness:
  "\<exists>before after.
     snd (consume (pad (PyBool False) False) 0
            [Axis ''touchpad_x'' 0, Axis ''touchpad_x'' (6004799503160661 / 18014398509481984),
             Configuration ''touchpad_aspect_ratio'' 2])
       = before @ [Write 3 0 682, Write 3 53 682] @ after"
  using axis_value_written [where s = "pad (PyBool False) False" and c = "''touchpad_x''"
      and ax = "\<lparr>ax_id = 0, scale = 1023, offset = 0, bounds = Some (0, 2048)\<rparr>"
      and post = "[Configuration ''touchpad_aspect_ratio'' 2]" and now_ns = 0
      and pre = "[Axis ''touchpad_x'' 0]" and v = "6004799503160661 / 18014398509481984"]
  by (simp add: pad_simps ev_key_def py_int_def clamp_bounds_def float_steps B_simps)

text \<open>
  C1 as stated fails for the vertical touch axis. With the aspect ratio set to \<open>2\<close> by an
  earlier call, the event \<open>touchpad_y = 1\<close> on an axis with scale \<open>1023\<close> is written as
  \<open>1023\<close>, on the axis and on its multi-touch mirror; the specification's value, with the
  multiplication, is \<open>2046\<close>.
\<close>

theorem axis_touchpad_y_counterexample:
  "touchpad_aspect (fst (consume (pad (PyBool False) False) 0
       [Configuration ''touchpad_aspect_ratio'' 2])) = 2
   \<and> snd (consume
            (fst (consume (pad (PyBool False) False) 0 [Configuration ''touchpad_aspect_ratio'' 2]))
            0 [Axis ''touchpad_y'' 1])
       = [Write 3 1 1023, Write 3 54 1023, Syn]
   \<and> spec_axis_value 2 \<lparr>ax_id = 1, scale = 1023, offset = 0, bounds = Some (0, 2048)\<rparr>
        ''touchpad_y'' 1 = 2046"
  by (simp add: consume_def consume_finish_def pad_simps ev_key_def in_wrote_def py_int_def
      clamp_bounds_def spec_axis_value_def float_steps B_simps Let_def)

subsection \<open>Duplicates within a batch\<close>



text \<open>Events of an unmapped code cause no write, however many there are.\<close>

lemma unmapped_events_no_write:
  "snd (consume (pad (PyBool False) False) 0 [Axis ''dpad_x'' 1, Axis ''dpad_x'' 0]) = []"
  by (simp add: consume_def consume_finish_def pad_simps ev_key_def in_wrote_def is_imu_ts_def
      Let_def)



subsection \<open>Tracking ids\<close>

lemma consume_ev_touch_id:
  "consume_ev s w t ev = (s', w', t', ops) \<Longrightarrow> ev_key ev \<noteq> (''button'', ''touchpad_touch'')
    \<Longrightarrow> touch_id s' = touch_id s"
  by (cases ev) (auto simp: Let_def ev_key_def split: option.splits if_splits)

lemma consume_loop_touch_id:
  "consume_loop s w t xs = (s', w', t', ops)
    \<Longrightarrow> \<forall>x \<in> set xs. ev_key x \<noteq> (''button'', ''touchpad_touch'')
    \<Longrightarrow> touch_id s' = touch_id s"
proof (induction xs arbitrary: s w t s' w' t' ops)
  case Nil
  then show ?case by simp
next
  case (Cons x xs)
  show ?case
  proof (cases "in_wrote (ev_key x) w")
    case True
    with Cons.prems have "consume_loop s w t xs = (s', w', t', ops)" by simp
    from Cons.IH[OF this] Cons.prems(2) show ?thesis by simp
  next
    case False
    obtain s1 w1 t1 o1 where e1: "consume_ev s w t x = (s1, w1, t1, o1)"
      by (cases "consume_ev s w t x") auto
    obtain s2 w2 t2 o2 where e2: "consume_loop s1 w1 t1 xs = (s2, w2, t2, o2)"
      by (cases "consume_loop s1 w1 t1 xs") auto
    from Cons.prems False e1 e2 have eq: "s' = s2" by simp
    from Cons.prems(2) have "ev_key x \<noteq> (''button'', ''touchpad_touch'')" by simp
    from consume_ev_touch_id[OF e1 this] Cons.IH[OF e2] Cons.prems(2) eq
    show ?thesis by simp
  qed
qed

lemma consume_ev_touch_range:
  "consume_ev s w t ev = (s', w', t', ops) \<Longrightarrow> 1 \<le> touch_id s \<and> touch_id s \<le> 500
    \<Longrightarrow> 1 \<le> touch_id s' \<and> touch_id s' \<le> 500"
  by (cases ev) (auto simp: Let_def split: option.splits if_splits)

lemma consume_loop_touch_range:
  "consume_loop s w t xs = (s', w', t', ops) \<Longrightarrow> 1 \<le> touch_id s \<and> touch_id s \<le> 500
    \<Longrightarrow> 1 \<le> touch_id s' \<and> touch_id s' \<le> 500"
proof (induction xs arbitrary: s w t s' w' t' ops)
  case Nil
  then show ?case by simp
next
  case (Cons x xs)
  show ?case
  proof (cases "in_wrote (ev_key x) w")
    case True
    with Cons.prems have "consume_loop s w t xs = (s', w', t', ops)" by simp
    from Cons.IH[OF this Cons.prems(2)] show ?thesis .
  next
    case False
    obtain s1 w1 t1 o1 where e1: "consume_ev s w t x = (s1, w1, t1, o1)"
      by (cases "consume_ev s w t x") auto
    obtain s2 w2 t2 o2 where e2: "consume_loop s1 w1 t1 xs = (s2, w2, t2, o2)"
      by (cases "consume_loop s1 w1 t1 xs") auto
    from Cons.prems False e1 e2 have eq: "s' = s2" by simp
    from Cons.IH[OF e2 consume_ev_touch_range[OF e1 Cons.prems(2)]] eq
    show ?thesis by simp
  qed
qed

text \<open>The tracking id stays between \<open>1\<close> and \<open>500\<close>, where \<open>open\<close> puts it.\<close>

lemma touch_id_in_range:
  "1 \<le> touch_id s \<and> touch_id s \<le> 500
    \<Longrightarrow> 1 \<le> touch_id (fst (consume s now_ns events))
        \<and> touch_id (fst (consume s now_ns events)) \<le> 500"
proof -
  assume r: "1 \<le> touch_id s \<and> touch_id s \<le> 500"
  obtain s' w t ops where e: "consume_loop s [] 0 (rev events) = (s', w, t, ops)"
    by (cases "consume_loop s [] 0 (rev events)") auto
  from consume_loop_touch_range[OF e r] r e show ?thesis
    by (simp add: consume_def)
qed

text \<open>
  C2, as the code has it. On an open device whose button map has \<open>touchpad_touch\<close>, a call
  of \<open>consume\<close> whose latest \<open>touchpad_touch\<close> event has the value \<open>v\<close> writes the tracking
  id \<open>touch_id\<close> if \<open>v\<close> is true and \<open>-1\<close> if it is false, and in both cases advances
  \<open>touch_id\<close> by one, from \<open>500\<close> to \<open>1\<close>: a lift advances the counter as a touch-down does.
  A call without an event of that key leaves \<open>touch_id\<close> as it is.
\<close>

theorem tracking_id_advances:
  assumes open_: "dev s \<noteq> None"
    and mapped: "btn_map s ''touchpad_touch'' = Some b"
    and later: "\<forall>x \<in> set post. ev_key x \<noteq> (''button'', ''touchpad_touch'')"
  shows "Write (B ''EV_ABS'') (B ''ABS_MT_TRACKING_ID'') (if v then touch_id s else - 1)
           \<in> set (snd (consume s now_ns (pre @ Button ''touchpad_touch'' v # post)))
         \<and> touch_id (fst (consume s now_ns (pre @ Button ''touchpad_touch'' v # post)))
             = (if touch_id s + 1 > 500 then 1 else touch_id s + 1)
         \<and> touch_id (fst (consume s now_ns post)) = touch_id s"
proof -
  let ?e = "Button ''touchpad_touch'' v"
  let ?pre' = "[x \<leftarrow> pre. ev_key x \<noteq> ev_key ?e]"
  let ?w = "Write (B ''EV_ABS'') (B ''ABS_MT_TRACKING_ID'') (if v then touch_id s else - 1)"
  have k: "ev_key ?e = (''button'', ''touchpad_touch'')" by (simp add: ev_key_def)
  have reg: "registers s ?e" using mapped by simp
  have fresh: "\<not> in_wrote (ev_key ?e) []" by (simp add: in_wrote_def)
  obtain s1 w1 t1 o1 where e1: "consume_loop s [] 0 (rev post) = (s1, w1, t1, o1)"
    by (cases "consume_loop s [] 0 (rev post)") auto
  have m1: "btn_map s1 ''touchpad_touch'' = Some b"
    using consume_loop_config[OF e1] mapped by (simp add: same_config_def)
  have id1: "touch_id s1 = touch_id s"
    using consume_loop_touch_id[OF e1] later by simp
  obtain s2 w2 t2 o2 where e2: "consume_ev s1 w1 t1 ?e = (s2, w2, t2, o2)"
    by (cases "consume_ev s1 w1 t1 ?e") auto
  from e2 m1 id1 have id2: "touch_id s2 = (if touch_id s + 1 > 500 then 1 else touch_id s + 1)"
    and in2: "?w \<in> set o2"
    by auto
  obtain s3 w3 t3 o3 where e3: "consume_loop s2 w2 t2 (rev ?pre') = (s3, w3, t3, o3)"
    by (cases "consume_loop s2 w2 t2 (rev ?pre')") auto
  have id3: "touch_id s3 = touch_id s2"
    using consume_loop_touch_id[OF e3] k by simp
  have full: "consume_loop s [] 0 (rev (pre @ ?e # post)) = (s3, w3, t3, o1 @ o2 @ o3)"
    using consume_loop_latest[OF _ fresh reg, of post 0 pre] later k e1 e2 e3 by simp
  have res: "consume s now_ns (pre @ ?e # post)
               = (s3, (o1 @ o2 @ o3) @ consume_finish s3 now_ns w3 t3)"
    using open_ full by (auto simp: consume_def)
  have unchanged: "touch_id (fst (consume s now_ns post)) = touch_id s"
    using open_ e1 id1 by (auto simp: consume_def)
  from res in2 id2 id3 unchanged show ?thesis by simp
qed

theorem tracking_id_advances_witness:
  "Write 3 57 (- 1)
     \<in> set (snd (consume (pad (PyBool False) False) 0 [Button ''touchpad_touch'' False]))
   \<and> touch_id (fst (consume (pad (PyBool False) False) 0 [Button ''touchpad_touch'' False])) = 2"
  using tracking_id_advances [where s = "pad (PyBool False) False" and b = 330
      and post = "[]" and v = False and now_ns = 0 and pre = "[]"]
  by (simp add: pad_simps B_simps)

text \<open>
  C2 as stated fails when a lift lies between two touch-downs. After \<open>open\<close>, a touch-down
  takes the id \<open>1\<close> and leaves the counter at \<open>2\<close>; the lift moves it to \<open>3\<close>; the next
  touch-down is written with the id \<open>3\<close>, not \<open>2\<close>.
\<close>

theorem tracking_id_counterexample:
  "touch_id (fst (consume (pad (PyBool False) False) 0 [Button ''touchpad_touch'' True])) = 2
   \<and> touch_id (fst (consume
        (fst (consume (pad (PyBool False) False) 0 [Button ''touchpad_touch'' True]))
        0 [Button ''touchpad_touch'' False])) = 3
   \<and> snd (consume
        (fst (consume
           (fst (consume (pad (PyBool False) False) 0 [Button ''touchpad_touch'' True]))
           0 [Button ''touchpad_touch'' False]))
        0 [Button ''touchpad_touch'' True])
       = [Write 3 57 3, Write 1 325 1, Write 1 330 1, Syn]"
  by (simp add: consume_def consume_finish_def pad_simps ev_key_def in_wrote_def bool_int_def
      B_simps Let_def)

subsection \<open>The synchronisation event\<close>

lemma consume_ev_ops:
  "consume_ev s w t ev = (s', w', t', ops)
    \<Longrightarrow> Syn \<notin> set ops
        \<and> length w' = length w + (if ops = [] then 0 else 1)
        \<and> (\<not> list_ex is_zero_ts ops \<longrightarrow> (t' \<noteq> 0 \<longleftrightarrow> t \<noteq> 0 \<or> list_ex is_ts_write ops))"
  by (cases ev) (auto simp: Let_def B_simps split: option.splits if_splits)

lemma consume_loop_ops:
  "consume_loop s w t xs = (s', w', t', ops)
    \<Longrightarrow> Syn \<notin> set ops
        \<and> length w \<le> length w'
        \<and> (ops = [] \<longleftrightarrow> length w' = length w)
        \<and> (\<not> list_ex is_zero_ts ops \<longrightarrow> (t' \<noteq> 0 \<longleftrightarrow> t \<noteq> 0 \<or> list_ex is_ts_write ops))"
proof (induction xs arbitrary: s w t s' w' t' ops)
  case Nil
  then show ?case by auto
next
  case (Cons x xs)
  show ?case
  proof (cases "in_wrote (ev_key x) w")
    case True
    with Cons.prems have "consume_loop s w t xs = (s', w', t', ops)" by simp
    from Cons.IH[OF this] show ?thesis .
  next
    case False
    obtain s1 w1 t1 o1 where e1: "consume_ev s w t x = (s1, w1, t1, o1)"
      by (cases "consume_ev s w t x") auto
    obtain s2 w2 t2 o2 where e2: "consume_loop s1 w1 t1 xs = (s2, w2, t2, o2)"
      by (cases "consume_loop s1 w1 t1 xs") auto
    from Cons.prems False e1 e2 have eq: "w' = w2" "t' = t2" "ops = o1 @ o2" by simp_all
    note a = consume_ev_ops[OF e1] and b = Cons.IH[OF e2]
    have 1: "Syn \<notin> set ops" using a b eq by simp
    have 2: "length w \<le> length w'" using a b eq by simp
    have 3: "ops = [] \<longleftrightarrow> length w' = length w" using a b eq by (auto split: if_splits)
    have 4: "\<not> list_ex is_zero_ts ops \<longrightarrow> (t' \<noteq> 0 \<longleftrightarrow> t \<noteq> 0 \<or> list_ex is_ts_write ops)"
      using a b eq by (auto simp: list_ex_iff)
    from 1 2 3 4 show ?thesis by blast
  qed
qed

lemma button_with_wall_clock:
  "snd (consume (pad (PyBool True) True) 5000 [Button ''a'' True])
     = [Write 1 304 1, Write 4 5 5, Syn]"
  by (simp add: consume_def consume_finish_def pad_simps ev_key_def in_wrote_def bool_int_def
      B_simps Let_def)

text \<open>
  A timestamp that wraps to \<open>0\<close> microseconds is written, but it leaves \<open>ts\<close> false, and no
  synchronisation event follows it. The property below leaves such calls aside.
\<close>

lemma zero_timestamp_no_sync:
  "snd (consume (pad (PyBool True) False) 0 [Axis ''gyro_ts'' 4294967296000]) = [Write 4 5 0]"
  by (simp add: consume_def consume_finish_def pad_simps ev_key_def in_wrote_def is_imu_ts_def
      B_simps Let_def)

text \<open>
  C3, as the code has it. In a call of \<open>consume\<close> on an open device that writes no timestamp
  of value \<open>0\<close>, a synchronisation event is emitted if and only if the loop wrote something
  and \<open>output_imu_timestamps\<close> is false (or the empty string), or the loop wrote a sensor
  timestamp, or \<open>output_timestamps\<close> is enabled. The wall-clock timestamp is assigned to
  the same variable \<open>ts\<close> that the condition tests, so it does enter the condition.
\<close>

theorem sync_condition:
  assumes open_: "dev s \<noteq> None"
    and nonzero: "\<not> list_ex is_zero_ts (snd (consume s now_ns events))"
  shows "Syn \<in> set (snd (consume s now_ns events)) \<longleftrightarrow>
           (case consume_loop s [] 0 (rev events) of
              (s', w, t, ops) \<Rightarrow>
                ops \<noteq> [] \<and> (\<not> truthy (output_imu_timestamps s) \<or> list_ex is_ts_write ops
                             \<or> output_timestamps s))"
proof -
  obtain s' w t ops where e: "consume_loop s [] 0 (rev events) = (s', w, t, ops)"
    by (cases "consume_loop s [] 0 (rev events)") auto
  have cfg: "output_imu_timestamps s' = output_imu_timestamps s"
            "output_timestamps s' = output_timestamps s"
    using consume_loop_config[OF e] by (simp_all add: same_config_def)
  have res: "snd (consume s now_ns events) = ops @ consume_finish s' now_ns w t"
    using open_ e by (auto simp: consume_def)
  from consume_loop_ops[OF e]
  have nosyn: "Syn \<notin> set ops" and we: "ops = [] \<longleftrightarrow> w = []"
    and ts: "\<not> list_ex is_zero_ts ops \<longrightarrow> (t \<noteq> 0 \<longleftrightarrow> list_ex is_ts_write ops)"
    by auto
  from nonzero res have nz1: "\<not> list_ex is_zero_ts ops"
    and nz2: "\<not> list_ex is_zero_ts (consume_finish s' now_ns w t)"
    by (auto simp: list_ex_iff)
  have wall: "w \<noteq> [] \<Longrightarrow> output_timestamps s \<Longrightarrow> (now_ns div 1000) mod 2 ^ 32 \<noteq> 0"
    using nz2 cfg by (auto simp: consume_finish_def Let_def B_simps split: if_splits)
  have "Syn \<in> set (consume_finish s' now_ns w t) \<longleftrightarrow>
          w \<noteq> [] \<and> (\<not> truthy (output_imu_timestamps s) \<or> t \<noteq> 0 \<or> output_timestamps s)"
    using wall cfg by (auto simp: consume_finish_def Let_def)
  with nosyn we ts nz1 res e show ?thesis by auto
qed

theorem sync_condition_witness:
  "Syn \<in> set (snd (consume (pad (PyBool True) True) 5000 [Button ''a'' True]))"
proof -
  have "\<not> list_ex is_zero_ts (snd (consume (pad (PyBool True) True) 5000 [Button ''a'' True]))"
    by (simp add: button_with_wall_clock B_simps)
  from sync_condition[OF _ this] show ?thesis
    by (simp add: pad_simps ev_key_def in_wrote_def bool_int_def B_simps)
qed

text \<open>
  C3 as stated fails when both timestamp outputs are enabled: a batch with one button
  event and no sensor timestamp is followed by the wall-clock timestamp and by a
  synchronisation event, which the specification's condition excludes.
\<close>

theorem sync_counterexample:
  "Syn \<in> set (snd (consume (pad (PyBool True) True) 5000 [Button ''a'' True]))
   \<and> \<not> spec_sync (pad (PyBool True) True) [Button ''a'' True]"
  by (simp add: button_with_wall_clock spec_sync_def pad_simps ev_key_def in_wrote_def
      bool_int_def B_simps)

subsection \<open>Sensor timestamps\<close>

text \<open>
  C7. An axis event whose code is not in the axis map, and is one of \<open>accel_ts\<close>, \<open>gyro_ts\<close>,
  \<open>imu_ts\<close> while \<open>output_imu_timestamps\<close> is \<open>True\<close>, or equals the string
  \<open>output_imu_timestamps\<close>, is written by the loop body as a timestamp event of the value
  \<open>(raw // 1000) mod 2^32\<close>, which also becomes \<open>ts\<close>; in a batch given to an open device, the
  write is made for the latest event of that code. For the raw value \<open>1500000\<close>, alone in
  its batch and without the wall-clock output, the call writes the timestamp \<open>1500\<close>
  followed by a synchronisation event.
\<close>

theorem sensor_timestamp_written:
  assumes open_: "dev s \<noteq> None"
    and unmapped: "axis_map s c = None"
    and sel: "is_imu_ts (output_imu_timestamps s) c"
    and later: "\<forall>x \<in> set post. ev_key x \<noteq> (''axis'', c)"
  shows "consume_ev s w t (Axis c v)
           = (s, ((''axis'', c), WInt (\<lfloor>v / 1000\<rfloor> mod 2 ^ 32)) # w, \<lfloor>v / 1000\<rfloor> mod 2 ^ 32,
              [Write (B ''EV_MSC'') (B ''MSC_TIMESTAMP'') (\<lfloor>v / 1000\<rfloor> mod 2 ^ 32)])
         \<and> Write (B ''EV_MSC'') (B ''MSC_TIMESTAMP'') (\<lfloor>v / 1000\<rfloor> mod 2 ^ 32)
             \<in> set (snd (consume s now_ns (pre @ Axis c v # post)))
         \<and> (\<not> output_timestamps s \<longrightarrow>
              snd (consume s now_ns [Axis c 1500000])
                = [Write (B ''EV_MSC'') (B ''MSC_TIMESTAMP'') 1500, Syn])"
proof -
  let ?e = "Axis c v"
  let ?pre' = "[x \<leftarrow> pre. ev_key x \<noteq> ev_key ?e]"
  let ?w = "Write (B ''EV_MSC'') (B ''MSC_TIMESTAMP'') (\<lfloor>v / 1000\<rfloor> mod 2 ^ 32)"
  have k: "ev_key ?e = (''axis'', c)" by (simp add: ev_key_def)
  have reg: "registers s ?e" using sel by simp
  have fresh: "\<not> in_wrote (ev_key ?e) []" by (simp add: in_wrote_def)
  have body: "consume_ev s w t ?e
           = (s, ((''axis'', c), WInt (\<lfloor>v / 1000\<rfloor> mod 2 ^ 32)) # w, \<lfloor>v / 1000\<rfloor> mod 2 ^ 32, [?w])"
    using unmapped sel by (simp add: Let_def)
  obtain s1 w1 t1 o1 where e1: "consume_loop s [] 0 (rev post) = (s1, w1, t1, o1)"
    by (cases "consume_loop s [] 0 (rev post)") auto
  have c1: "axis_map s1 c = None" "is_imu_ts (output_imu_timestamps s1) c"
    using consume_loop_config[OF e1] unmapped sel by (simp_all add: same_config_def)
  obtain s2 w2 t2 where e2: "consume_ev s1 w1 t1 ?e = (s2, w2, t2, [?w])"
    using c1 by (simp add: Let_def)
  obtain s3 w3 t3 o3 where e3: "consume_loop s2 w2 t2 (rev ?pre') = (s3, w3, t3, o3)"
    by (cases "consume_loop s2 w2 t2 (rev ?pre')") auto
  have full: "consume_loop s [] 0 (rev (pre @ ?e # post)) = (s3, w3, t3, o1 @ [?w] @ o3)"
    using consume_loop_latest[OF _ fresh reg, of post 0 pre] later k e1 e2 e3 by simp
  have general: "?w \<in> set (snd (consume s now_ns (pre @ ?e # post)))"
    using open_ full by (auto simp: consume_def)
  have scenario: "\<not> output_timestamps s \<longrightarrow>
      snd (consume s now_ns [Axis c 1500000])
        = [Write (B ''EV_MSC'') (B ''MSC_TIMESTAMP'') 1500, Syn]"
    using open_ unmapped sel
    by (auto simp: consume_def consume_finish_def ev_key_def in_wrote_def Let_def)
  from body general scenario show ?thesis by blast
qed

theorem sensor_timestamp_written_witness:
  "Write 4 5 2000
     \<in> set (snd (consume (pad (PyBool True) False) 0
                   [Axis ''gyro_ts'' 1000000, Axis ''gyro_ts'' 2000000, Button ''a'' True]))
   \<and> snd (consume (pad (PyBool True) False) 0 [Axis ''gyro_ts'' 1500000])
       = [Write 4 5 1500, Syn]"
  using sensor_timestamp_written [where s = "pad (PyBool True) False" and c = "''gyro_ts''"
      and post = "[Button ''a'' True]" and w = "[]" and t = 0 and v = 2000000 and now_ns = 0
      and pre = "[Axis ''gyro_ts'' 1000000]"]
  by (simp add: pad_simps is_imu_ts_def ev_key_def B_simps)

subsection \<open>Operations without an open device\<close>

lemma consume_closed: "dev s = None \<Longrightarrow> consume s now_ns evs = (s, [])"
  by (simp add: consume_def)

lemma produce_guard_empty:
  "ignore_cmds s \<or> fd s = Attr None \<or> (\<exists>n. fd s = Attr (Some n) \<and> (n \<notin> set fds \<or> dev s = None))
    \<Longrightarrow> produce s bu reads fds = Inr (s, [], [], [])"
  by (auto simp: produce_def)

lemma close_then_stale:
  "consume (fst (snd (close_device s ex))) now_ns evs = (fst (snd (close_device s ex)), [])
   \<and> produce (fst (snd (close_device s ex))) bu reads fds
       = Inr (fst (snd (close_device s ex)), [], [], [])"
  by (simp add: close_device_def consume_def produce_def)

text \<open>
  C5. On an instance on which \<open>open\<close> was never called, \<open>produce\<close> does not return the
  empty list unless \<open>ignore_cmds\<close> is set: \<open>__init__\<close> creates no attribute \<open>fd\<close>, and the
  guard of \<open>produce\<close> reads \<open>self.fd\<close> before it tests \<open>self.dev\<close>, so it raises
  \<open>AttributeError\<close>. (After \<open>close\<close>, and in \<open>consume\<close>, the operations are the no-ops
  the claim describes: \<open>consume_closed\<close>, \<open>produce_guard_empty\<close>, \<open>close_then_stale\<close>.)
\<close>

theorem produce_before_open_raises:
  "produce (init bm am imu_ts out_ts False u) bu reads fds = Inl AttributeError"
  by (simp add: produce_def init_def)

theorem produce_before_open_raises_witness:
  "produce (init Map.empty Map.empty (PyBool False) False False None)
     (\<lambda>r. \<lparr>ff_type = 80, weak_magnitude = 0, strong_magnitude = 0\<rparr>) [] [3]
   = Inl AttributeError"
  by (rule produce_before_open_raises)

subsection \<open>The stored rumble effect\<close>

lemma produce_ev_rumble:
  "rumble (fst (produce_ev bu (s, out, lg, ak) ev)) =
     (if is_rumble_upload bu ev then Some (uploaded_rumble bu ev) else rumble s)"
  by (auto simp: produce_ev_def is_rumble_upload_def uploaded_rumble_def B_simps Let_def
           split: option.splits)

lemma rumble_after_Cons:
  "rumble_after bu r (ev # evs) =
     rumble_after bu (if is_rumble_upload bu ev then Some (uploaded_rumble bu ev) else r) evs"
  by (auto simp: rumble_after_def split: list.splits)

lemma produce_batch_rumble:
  "rumble (fst (produce_batch bu acc evs)) = rumble_after bu (rumble (fst acc)) evs"
proof (induction evs arbitrary: acc)
  case Nil
  then show ?case by (simp add: rumble_after_def)
next
  case (Cons ev evs)
  obtain s out lg ak where a: "acc = (s, out, lg, ak)" by (cases acc) auto
  show ?case
    using Cons.IH[of "produce_ev bu acc ev"] produce_ev_rumble[of bu s out lg ak ev] a
    by (simp add: rumble_after_Cons)
qed

lemma rumble_after_append:
  "rumble_after bu r (xs @ ys) = rumble_after bu (rumble_after bu r xs) ys"
  by (induction xs arbitrary: r) (simp_all add: rumble_after_Cons, simp add: rumble_after_def)

lemma produce_loop_rumble:
  "rumble (fst (produce_loop bu acc reads)) = rumble_after bu (rumble (fst acc)) (concat reads)"
proof (induction reads arbitrary: acc)
  case Nil
  then show ?case by (simp add: rumble_after_def)
next
  case (Cons b reads)
  show ?case
    using Cons.IH[of "produce_batch bu acc b"]
    by (simp add: produce_batch_rumble rumble_after_append)
qed

lemma rumble_after_cases:
  "rumble_after bu r evs = r
    \<or> (\<exists>ev \<in> set evs. is_rumble_upload bu ev
          \<and> rumble_after bu r evs = Some (uploaded_rumble bu ev))"
proof (cases "filter (is_rumble_upload bu) evs")
  case Nil
  then show ?thesis by (simp add: rumble_after_def)
next
  case (Cons u us)
  then have "last (u # us) \<in> set (filter (is_rumble_upload bu) evs)"
    by (metis last_in_set list.distinct(1))
  then have m: "last (u # us) \<in> set evs" "is_rumble_upload bu (last (u # us))"
    by simp_all
  have "rumble_after bu r evs = Some (uploaded_rumble bu (last (u # us)))"
    using Cons by (simp add: rumble_after_def)
  with m show ?thesis by blast
qed

text \<open>
  C6, as the code has it. The stored rumble effect is left as it is by \<open>consume\<close>, by
  \<open>close\<close> and by \<open>open\<close>: \<open>close\<close> does not clear it, and it outlives the device handle.
  \<open>produce\<close> either leaves it or sets it to the effect of the last rumble-style upload among
  the input events it drains, which replaces the one stored before; an activation or a
  deactivation reads it and leaves it in place.
\<close>

theorem rumble_frame:
  "rumble (fst (consume s now_ns events)) = rumble s
   \<and> rumble (fst (snd (close_device s ex))) = rumble s
   \<and> rumble (fst (snd (open_device mk s))) = rumble s
   \<and> (produce s bu reads fds = Inr (s', out, lg, ak) \<longrightarrow>
        rumble s' = rumble s \<or> rumble s' = rumble_after bu (rumble s) (concat reads))
   \<and> rumble (fst (produce_loop bu (s, [], [], []) reads))
        = rumble_after bu (rumble s) (concat reads)
   \<and> (ie_type ev = B ''EV_FF'' \<longrightarrow>
        rumble (fst (produce_ev bu (s, out, lg, ak) ev)) = rumble s)"
proof -
  have c: "rumble (fst (consume s now_ns events)) = rumble s"
  proof (cases "dev s")
    case None
    then show ?thesis by (simp add: consume_def)
  next
    case (Some h)
    obtain s1 w t ops where e: "consume_loop s [] 0 (rev events) = (s1, w, t, ops)"
      by (cases "consume_loop s [] 0 (rev events)") auto
    from consume_loop_config[OF e] have "rumble s1 = rumble s" by (simp add: same_config_def)
    with Some e show ?thesis by (simp add: consume_def)
  qed
  have cl: "rumble (fst (snd (close_device s ex))) = rumble s"
    by (simp add: close_device_def)
  have op: "rumble (fst (snd (open_device mk s))) = rumble s"
    by (simp add: open_device_def open_finish_def Let_def split: sum.splits)
  have pr: "produce s bu reads fds = Inr (s', out, lg, ak) \<longrightarrow>
        rumble s' = rumble s \<or> rumble s' = rumble_after bu (rumble s) (concat reads)"
    using produce_loop_rumble[of bu "(s, [], [], [])" reads]
    by (auto simp: produce_def split: if_splits attr.splits option.splits)
  have pl: "rumble (fst (produce_loop bu (s, [], [], []) reads))
        = rumble_after bu (rumble s) (concat reads)"
    using produce_loop_rumble[of bu "(s, [], [], [])" reads] by simp
  have act: "ie_type ev = B ''EV_FF'' \<longrightarrow>
        rumble (fst (produce_ev bu (s, out, lg, ak) ev)) = rumble s"
    by (simp add: produce_ev_rumble is_rumble_upload_def B_simps)
  from c cl op pr pl act show ?thesis by blast
qed

theorem rumble_frame_witness:
  "rumble (fst (produce_loop ff_upload (pad (PyBool False) False, [], [], [])
             [[\<lparr>ie_type = 257, ie_code = 1, ie_value = 0\<rparr>,
               \<lparr>ie_type = 21, ie_code = 0, ie_value = 1\<rparr>]]))
     = Some (Rumble ''main'' 1 (32768 / 65535))
   \<and> rumble (fst (produce_ev ff_upload
        (pad (PyBool False) False, [], [], []) \<lparr>ie_type = 21, ie_code = 0, ie_value = 1\<rparr>)) = None"
  using rumble_frame [where s = "pad (PyBool False) False" and bu = ff_upload
      and reads = "[[\<lparr>ie_type = 257, ie_code = 1, ie_value = 0\<rparr>,
                     \<lparr>ie_type = 21, ie_code = 0, ie_value = 1\<rparr>]]"
      and ev = "\<lparr>ie_type = 21, ie_code = 0, ie_value = 1\<rparr>" and out = "[]" and lg = "[]"
      and ak = "[]"]
  by (simp add: pad_simps rumble_after_def is_rumble_upload_def uploaded_rumble_def ff_upload_def
      B_simps)

text \<open>
  C6 as stated fails at \<open>close\<close>: the effect stored by an upload is still stored after
  \<open>close\<close> has destroyed the device handle.
\<close>

theorem close_keeps_rumble_counterexample:
  "map_sum id (\<lambda>acc. (dev (fst (snd (close_device (fst acc) False))),
                      rumble (fst (snd (close_device (fst acc) False)))))
     (produce (pad (PyBool False) False) ff_upload
        [[\<lparr>ie_type = 257, ie_code = 1, ie_value = 0\<rparr>]] [7])
   = Inr (None, Some (Rumble ''main'' 1 (32768 / 65535)))"
  by (simp add: produce_def pad_simps close_device_def produce_ev_def ff_upload_def B_simps)

subsection \<open>Activation of a force-feedback effect\<close>

text \<open>
  C8. When \<open>produce\<close> handles a force-feedback event with a nonzero value, it appends the
  stored rumble effect to its output if there is one; if none was uploaded it logs a
  warning and appends nothing. In both cases it goes on without an exception: a call of
  \<open>produce\<close> on an open, ready device that drains one such event returns normally, with
  that one event or with none.
\<close>

theorem activation_without_upload:
  "ie_type ev = B ''EV_FF'' \<Longrightarrow> ie_value ev \<noteq> 0 \<Longrightarrow>
     produce_ev bu (s, out, lg, ak) ev =
       (case rumble s of Some r \<Rightarrow> (s, out @ [r], lg, ak) | None \<Rightarrow> (s, out, lg @ [Warn], ak))
     \<and> (\<not> ignore_cmds s \<and> fd s = Attr (Some n) \<and> n \<noteq> 0 \<and> n \<in> set fds \<and> dev s \<noteq> None \<longrightarrow>
          produce s bu [[ev]] fds =
            Inr (case rumble s of Some r \<Rightarrow> (s, [r], [], []) | None \<Rightarrow> (s, [], [Warn], [])))"
  by (auto simp: produce_ev_def produce_def B_simps split: option.splits)

theorem activation_without_upload_witness:
  "produce (pad (PyBool False) False) ff_upload [[\<lparr>ie_type = 21, ie_code = 0, ie_value = 1\<rparr>]] [7]
     = Inr (pad (PyBool False) False, [], [Warn], [])
   \<and> map_sum id (\<lambda>acc. fst (snd acc))
       (produce (pad (PyBool False) False) ff_upload
          [[\<lparr>ie_type = 257, ie_code = 1, ie_value = 0\<rparr>],
           [\<lparr>ie_type = 21, ie_code = 0, ie_value = 1\<rparr>]] [7])
     = Inr [Rumble ''main'' 1 (32768 / 65535)]"
proof -
  have a: "produce (pad (PyBool False) False) ff_upload [[\<lparr>ie_type = 21, ie_code = 0, ie_value = 1\<rparr>]] [7]
     = Inr (pad (PyBool False) False, [], [Warn], [])"
    using activation_without_upload [where ev = "\<lparr>ie_type = 21, ie_code = 0, ie_value = 1\<rparr>"
        and s = "pad (PyBool False) False" and n = 7 and fds = "[7]" and bu = ff_upload]
    by (simp add: pad_simps B_simps)
  have b: "map_sum id (\<lambda>acc. fst (snd acc))
       (produce (pad (PyBool False) False) ff_upload
          [[\<lparr>ie_type = 257, ie_code = 1, ie_value = 0\<rparr>],
           [\<lparr>ie_type = 21, ie_code = 0, ie_value = 1\<rparr>]] [7])
     = Inr [Rumble ''main'' 1 (32768 / 65535)]"
    using activation_without_upload [where ev = "\<lparr>ie_type = 21, ie_code = 0, ie_value = 1\<rparr>"
        and s = "(pad (PyBool False) False)\<lparr>rumble := Some (Rumble ''main'' 1 (32768 / 65535))\<rparr>"
        and out = "[]" and lg = "[]" and ak = "[EndUpload 0]" and bu = ff_upload]
    by (simp add: produce_def pad_simps produce_ev_def ff_upload_def B_simps)
  from a b show ?thesis by simp
qed

subsection \<open>The two constructors of \<open>open\<close>\<close>

text \<open>
  C9. \<open>open\<close> first calls the constructor that takes the unique id. If that succeeds, the
  device is the one it made and nothing is logged beyond the opening line. If it raises,
  the cause is logged as an error and the default constructor is called without the
  unique id; its device is then the one used. \<open>open\<close> raises only if both constructors
  raise, and then with the exception of the second.
\<close>

theorem open_two_tier:
  "(mk UInputMonkey = Inr n \<longrightarrow>
      open_device mk s =
        (Inr (if ignore_cmds s then [] else [n]),
         s\<lparr>dev := Some \<lparr>h_fd = n, h_ctor = UInputMonkey, h_uniq = uniq s\<rparr>,
           touchpad_aspect := 1, touch_id := 1, fd := Attr (Some n)\<rparr>,
         [Info]))
   \<and> (mk UInputMonkey = Inl e \<and> mk UInput = Inr n \<longrightarrow>
      open_device mk s =
        (Inr (if ignore_cmds s then [] else [n]),
         s\<lparr>dev := Some \<lparr>h_fd = n, h_ctor = UInput, h_uniq = None\<rparr>,
           touchpad_aspect := 1, touch_id := 1, fd := Attr (Some n)\<rparr>,
         [Info, Error]))
   \<and> (mk UInputMonkey = Inl e \<and> mk UInput = Inl e' \<longrightarrow>
      open_device mk s = (Inl e', s, [Info, Error]))
   \<and> ((\<exists>x. fst (open_device mk s) = Inl x) \<longleftrightarrow>
        (\<exists>x. mk UInputMonkey = Inl x) \<and> (\<exists>y. mk UInput = Inl y))"
  by (auto simp: open_device_def open_finish_def Let_def split: sum.splits)

theorem open_two_tier_witness:
  "open_device (\<lambda>c. Inr 7) (init Map.empty Map.empty (PyBool False) False False (Some ''pad''))
     = (Inr [7],
        (init Map.empty Map.empty (PyBool False) False False (Some ''pad''))
          \<lparr>dev := Some \<lparr>h_fd = 7, h_ctor = UInputMonkey, h_uniq = Some ''pad''\<rparr>,
           touchpad_aspect := 1, touch_id := 1, fd := Attr (Some 7)\<rparr>,
        [Info])
   \<and> open_device (\<lambda>c. case c of UInputMonkey \<Rightarrow> Inl (Raised ''uniq'') | UInput \<Rightarrow> Inr 7)
       (init Map.empty Map.empty (PyBool False) False False (Some ''pad''))
     = (Inr [7],
        (init Map.empty Map.empty (PyBool False) False False (Some ''pad''))
          \<lparr>dev := Some \<lparr>h_fd = 7, h_ctor = UInput, h_uniq = None\<rparr>,
           touchpad_aspect := 1, touch_id := 1, fd := Attr (Some 7)\<rparr>,
        [Info, Error])
   \<and> open_device (\<lambda>c. case c of UInputMonkey \<Rightarrow> Inl (Raised ''uniq'') | UInput \<Rightarrow> Inl (Raised ''uinput''))
       (init Map.empty Map.empty (PyBool False) False False (Some ''pad''))
     = (Inl (Raised ''uinput''),
        init Map.empty Map.empty (PyBool False) False False (Some ''pad''), [Info, Error])"
  using
    open_two_tier [where mk = "\<lambda>c. Inr 7" and n = 7
      and s = "init Map.empty Map.empty (PyBool False) False False (Some ''pad'')"]
    open_two_tier [where
      mk = "\<lambda>c. case c of UInputMonkey \<Rightarrow> Inl (Raised ''uniq'') | UInput \<Rightarrow> Inr 7"
      and n = 7 and e = "Raised ''uniq''"
      and s = "init Map.empty Map.empty (PyBool False) False False (Some ''pad'')"]
    open_two_tier [where
      mk = "\<lambda>c. case c of UInputMonkey \<Rightarrow> Inl (Raised ''uniq'') | UInput \<Rightarrow> Inl (Raised ''uinput'')"
      and e = "Raised ''uniq''" and e' = "Raised ''uinput''"
      and s = "init Map.empty Map.empty (PyBool False) False False (Some ''pad'')"]
  by (simp add: init_def)

end
